theory Spec2Isabelle
  imports Main "HOL-Library.Char_ord" "HOL-Library.List_Lexorder" "HOL-Library.Multiset"
    "HOL-Library.AList"
begin

section \<open>Python values and strings\<close>

text \<open>
  A Python \<open>str\<close> is modelled as a HOL \<open>string\<close>: a list of characters whose codes
  range over 0..255 (the code points of Latin-1). The order on characters is the order of
  their codes (\<open>Char_ord\<close>) and the order on strings is the lexicographic one with a proper
  prefix smaller (\<open>List_Lexorder\<close>): this is how Python compares \<open>str\<close> values, so
  \<open>sort\<close> on a list of distinct strings is Python's \<open>sorted\<close>.
\<close>

text \<open>
  The values of Python that the scripts handle as data: what \<open>json.loads\<close> returns and what
  the literal of \<open>MODELS\<close> holds. A \<open>dict\<close> is an association list in insertion order; a
  \<open>float\<close> is kept as its literal (the scripts never compute with one).
\<close>

datatype pyval =
    PNone
  | PBool bool
  | PInt int
  | PFloat string
  | PStr string
  | PList "pyval list"
  | PDict "(string \<times> pyval) list"

text \<open>The exceptions that the scripts under \<open>src/\<close> raise or let through.\<close>

datatype py_error =
    SystemExit int
  | OSError string
  | JSONDecodeError string
  | ValidationError string

text \<open>\<open>str(n)\<close> for a non-negative integer: its decimal digits, most significant first.\<close>

definition digit_char :: "nat \<Rightarrow> char" where
  "digit_char d = ''0123456789'' ! d"

fun str_nat :: "nat \<Rightarrow> string" where
  "str_nat n = (if n < 10 then [digit_char n] else str_nat (n div 10) @ [digit_char (n mod 10)])"

declare str_nat.simps [simp del]

text \<open>\<open>sep.join(xs)\<close>.\<close>

fun join :: "string \<Rightarrow> string list \<Rightarrow> string" where
  "join sep [] = []"
| "join sep [x] = x"
| "join sep (x # y # ys) = x @ sep @ join sep (y # ys)"

text \<open>\<open>s.split(c)\<close> for a separator of one character: never an empty list.\<close>

fun split_on :: "char \<Rightarrow> string \<Rightarrow> string list" where
  "split_on c [] = [[]]"
| "split_on c (x # xs) =
     (if x = c then [] # split_on c xs
      else (case split_on c xs of
              [] \<Rightarrow> [[x]]
            | w # ws \<Rightarrow> (x # w) # ws))"

text \<open>
  \<open>str.isspace\<close> on one character, for the code points below 256: the ASCII white space
  9..13 and 32, the separators 28..31, NEL (133) and the no-break space (160).
\<close>

definition isspace :: "char \<Rightarrow> bool" where
  "isspace c = (let n = (of_char c :: nat) in
     (9 \<le> n \<and> n \<le> 13) \<or> (28 \<le> n \<and> n \<le> 32) \<or> n = 133 \<or> n = 160)"

text \<open>\<open>s.strip()\<close>: white space removed at both ends.\<close>

definition strip :: "string \<Rightarrow> string" where
  "strip s = rev (dropWhile isspace (rev (dropWhile isspace s)))"

text \<open>\<open>s.endswith(suffix)\<close>.\<close>

definition endswith :: "string \<Rightarrow> string \<Rightarrow> bool" where
  "endswith s suffix = (length suffix \<le> length s \<and> drop (length s - length suffix) s = suffix)"

section \<open>resolve\_model\_config.py\<close>

text \<open>
  The table \<open>MODELS\<close> of \<open>src/.github/run-eval/resolve_model_config.py\<close>, entry by entry in
  the order of the source. Each configuration is a \<open>dict\<close> with the keys \<open>id\<close>,
  \<open>display_name\<close> and \<open>llm_config\<close>.
\<close>

definition model_entry :: "string \<Rightarrow> string \<Rightarrow> (string \<times> pyval) list \<Rightarrow> string \<times> pyval" where
  "model_entry mid display_name llm_config =
     (mid, PDict [(''id'', PStr mid), (''display_name'', PStr display_name),
                  (''llm_config'', PDict llm_config)])"

definition MODELS :: "(string \<times> pyval) list" where
  "MODELS = [
     model_entry ''claude-sonnet-4-5-20250929'' ''Claude Sonnet 4.5''
       [(''model'', PStr ''litellm_proxy/claude-sonnet-4-5-20250929''), (''temperature'', PFloat ''0.0'')],
     model_entry ''kimi-k2-thinking'' ''Kimi K2 Thinking''
       [(''model'', PStr ''litellm_proxy/moonshot/kimi-k2-thinking'')],
     model_entry ''kimi-k2.5'' ''Kimi K2.5''
       [(''model'', PStr ''litellm_proxy/moonshot/kimi-k2.5''), (''temperature'', PFloat ''1.0''),
        (''top_p'', PFloat ''0.95'')],
     model_entry ''qwen3-max-thinking'' ''Qwen3 Max Thinking''
       [(''model'', PStr ''litellm_proxy/dashscope/qwen3-max-2026-01-23''),
        (''litellm_extra_body'', PDict [(''enable_thinking'', PBool True)])],
     model_entry ''claude-4.5-opus'' ''Claude 4.5 Opus''
       [(''model'', PStr ''litellm_proxy/anthropic/claude-opus-4-5-20251101''), (''temperature'', PFloat ''0.0'')],
     model_entry ''claude-4.6-opus'' ''Claude 4.6 Opus''
       [(''model'', PStr ''litellm_proxy/anthropic/claude-opus-4-6''), (''temperature'', PFloat ''0.0'')],
     model_entry ''claude-sonnet-4-6'' ''Claude Sonnet 4.6''
       [(''model'', PStr ''litellm_proxy/anthropic/claude-sonnet-4-6''), (''temperature'', PFloat ''0.0'')],
     model_entry ''gemini-3-pro'' ''Gemini 3 Pro''
       [(''model'', PStr ''litellm_proxy/gemini-3-pro-preview'')],
     model_entry ''gemini-3-flash'' ''Gemini 3 Flash''
       [(''model'', PStr ''litellm_proxy/gemini-3-flash-preview'')],
     model_entry ''gemini-3.1-pro'' ''Gemini 3.1 Pro''
       [(''model'', PStr ''litellm_proxy/gemini-3.1-pro-preview'')],
     model_entry ''gpt-5.2'' ''GPT-5.2''
       [(''model'', PStr ''litellm_proxy/openai/gpt-5.2-2025-12-11'')],
     model_entry ''gpt-5.2-codex'' ''GPT-5.2 Codex''
       [(''model'', PStr ''litellm_proxy/gpt-5.2-codex'')],
     model_entry ''gpt-5.2-high-reasoning'' ''GPT-5.2 High Reasoning''
       [(''model'', PStr ''litellm_proxy/openai/gpt-5.2-2025-12-11''), (''reasoning_effort'', PStr ''high'')],
     model_entry ''minimax-m2'' ''MiniMax M2''
       [(''model'', PStr ''litellm_proxy/minimax/minimax-m2'')],
     model_entry ''minimax-m2.5'' ''MiniMax M2.5''
       [(''model'', PStr ''litellm_proxy/minimax/MiniMax-M2.5''), (''temperature'', PFloat ''1.0''),
        (''top_p'', PFloat ''0.95'')],
     model_entry ''minimax-m2.1'' ''MiniMax M2.1''
       [(''model'', PStr ''litellm_proxy/minimax/MiniMax-M2.1'')],
     model_entry ''deepseek-v3.2-reasoner'' ''DeepSeek V3.2 Reasoner''
       [(''model'', PStr ''litellm_proxy/deepseek/deepseek-reasoner'')],
     model_entry ''qwen-3-coder'' ''Qwen 3 Coder''
       [(''model'', PStr ''litellm_proxy/fireworks_ai/qwen3-coder-480b-a35b-instruct'')],
     model_entry ''nemotron-3-nano-30b'' ''NVIDIA Nemotron 3 Nano 30B''
       [(''model'', PStr ''litellm_proxy/openai/NVIDIA-Nemotron-3-Nano-30B-A3B-FP8''),
        (''temperature'', PFloat ''0.0'')],
     model_entry ''glm-4.7'' ''GLM-4.7''
       [(''model'', PStr ''litellm_proxy/openrouter/z-ai/glm-4.7''), (''disable_vision'', PBool True)],
     model_entry ''glm-5'' ''GLM-5''
       [(''model'', PStr ''litellm_proxy/openrouter/z-ai/glm-5''), (''disable_vision'', PBool True)],
     model_entry ''qwen3-coder-next'' ''Qwen3 Coder Next''
       [(''model'', PStr ''litellm_proxy/openrouter/qwen/qwen3-coder-next'')],
     model_entry ''qwen3-coder-30b-a3b-instruct'' ''Qwen3 Coder 30B A3B Instruct''
       [(''model'', PStr ''litellm_proxy/Qwen3-Coder-30B-A3B-Instruct'')],
     model_entry ''gpt-oss-20b'' ''GPT OSS 20B''
       [(''model'', PStr ''litellm_proxy/gpt-oss-20b'')]
   ]"

text \<open>
  The process as the script sees it: the environment, the text files by path (with the paths
  that cannot be opened for writing), and what has been printed on the two streams.
\<close>

record proc =
  environ :: "string \<rightharpoonup> string"
  files :: "string \<rightharpoonup> string"
  unwritable :: "string set"
  stdout :: "string list"
  stderr :: "string list"

text \<open>\<open>error_exit\<close>: print on stderr, then \<open>sys.exit(exit_code)\<close>, which raises \<open>SystemExit\<close>.\<close>

definition error_exit :: "string \<Rightarrow> int \<Rightarrow> proc \<Rightarrow> (py_error + 'a) \<times> proc" where
  "error_exit msg exit_code s =
     (Inl (SystemExit exit_code), s\<lparr>stderr := stderr s @ [''ERROR: '' @ msg]\<rparr>)"

text \<open>\<open>get_required_env\<close>: a variable that is unset or empty exits with code 1.\<close>

definition get_required_env :: "string \<Rightarrow> proc \<Rightarrow> (py_error + string) \<times> proc" where
  "get_required_env key s =
     (case environ s key of
        None \<Rightarrow> error_exit (key @ '' not set'') 1 s
      | Some v \<Rightarrow> if v = [] then error_exit (key @ '' not set'') 1 s else (Inr v, s))"

text \<open>
  \<open>find_models_by_id\<close>: the loop over the requested IDs with the list \<open>resolved\<close> built so
  far. \<open>model_id not in MODELS\<close> is a failed lookup in the table.
\<close>

definition not_found_message :: "string \<Rightarrow> string" where
  "not_found_message model_id =
     ''Model ID '' @ [CHR 0x27] @ model_id @ [CHR 0x27] @ '' not found. Available models: ''
       @ join '', '' (sort (map fst MODELS))"

fun find_models_loop :: "string list \<Rightarrow> pyval list \<Rightarrow> proc \<Rightarrow> (py_error + pyval list) \<times> proc" where
  "find_models_loop [] resolved s = (Inr resolved, s)"
| "find_models_loop (model_id # rest) resolved s =
     (case map_of MODELS model_id of
        None \<Rightarrow> error_exit (not_found_message model_id) 1 s
      | Some cfg \<Rightarrow> find_models_loop rest (resolved @ [cfg]) s)"

definition find_models_by_id :: "string list \<Rightarrow> proc \<Rightarrow> (py_error + pyval list) \<times> proc" where
  "find_models_by_id model_ids s = find_models_loop model_ids [] s"

text \<open>
  \<open>open(path, "a")\<close> followed by one \<open>write\<close>: the text is appended, the file is created when it
  does not exist, and a path that cannot be opened raises \<open>OSError\<close>.
\<close>

definition append_file :: "string \<Rightarrow> string \<Rightarrow> proc \<Rightarrow> (py_error + unit) \<times> proc" where
  "append_file path text s =
     (if path \<in> unwritable s then (Inl (OSError path), s)
      else (Inr (), s\<lparr>files := (files s)(path \<mapsto> (case files s path of None \<Rightarrow> [] | Some old \<Rightarrow> old) @ text)\<rparr>))"

text \<open>\<open>[mid.strip() for mid in model_ids_str.split(",") if mid.strip()]\<close>\<close>

definition parse_model_ids :: "string \<Rightarrow> string list" where
  "parse_model_ids model_ids_str =
     map strip (filter (\<lambda>mid. strip mid \<noteq> []) (split_on (CHR '','') model_ids_str))"

text \<open>
  \<open>main\<close>. Two callees are parameters: \<open>run_preflight_check\<close> sends requests through
  \<open>litellm\<close>, reads the environment and prints, and is taken as a function of the resolved
  list and the environment that gives its verdict and the lines it prints;
  \<open>json.dumps(resolved, separators=(",", ":"))\<close> is the function \<open>json_dumps\<close>.
\<close>

definition main ::
  "(pyval list \<Rightarrow> (string \<rightharpoonup> string) \<Rightarrow> bool \<times> string list) \<Rightarrow> (pyval list \<Rightarrow> string) \<Rightarrow>
   proc \<Rightarrow> (py_error + unit) \<times> proc" where
  "main run_preflight_check json_dumps s =
     (case get_required_env ''MODEL_IDS'' s of
        (Inl e, s1) \<Rightarrow> (Inl e, s1)
      | (Inr model_ids_str, s1) \<Rightarrow>
     (case get_required_env ''GITHUB_OUTPUT'' s1 of
        (Inl e, s2) \<Rightarrow> (Inl e, s2)
      | (Inr github_output, s2) \<Rightarrow>
     (let model_ids = parse_model_ids model_ids_str in
      case find_models_by_id model_ids s2 of
        (Inl e, s3) \<Rightarrow> (Inl e, s3)
      | (Inr resolved, s3) \<Rightarrow>
     (let s4 = s3\<lparr>stdout := stdout s3 @
                 [''Resolved '' @ str_nat (length resolved) @ '' model(s): '' @ join '', '' model_ids]\<rparr>;
          (passed, printed) = run_preflight_check resolved (environ s4);
          s5 = s4\<lparr>stdout := stdout s4 @ printed\<rparr>
      in if \<not> passed then error_exit ''Preflight LLM check failed'' 1 s5
         else append_file github_output
                (''models_json='' @ json_dumps resolved @ [CHR 0x0A]) s5))))"

subsection \<open>Resolution is all or nothing\<close>

lemma error_exit_files: "files (snd (error_exit msg c s)) = files s"
  by (simp add: error_exit_def)

lemma find_models_loop_ok:
  "set ids \<subseteq> fst ` set MODELS \<Longrightarrow>
   find_models_loop ids acc s = (Inr (acc @ map (\<lambda>i. the (map_of MODELS i)) ids), s)"
proof (induction ids arbitrary: acc)
  case Nil
  then show ?case by simp
next
  case (Cons i ids)
  from Cons.prems have "i \<in> fst ` set MODELS" by simp
  then obtain cfg where cfg: "map_of MODELS i = Some cfg"
    by (metis domD dom_map_of_conv_image_fst)
  from Cons.prems have "set ids \<subseteq> fst ` set MODELS" by simp
  from Cons.IH [OF this, of "acc @ [cfg]"] cfg show ?case by simp
qed

lemma find_models_loop_exit:
  "\<not> set ids \<subseteq> fst ` set MODELS \<Longrightarrow>
   find_models_loop ids acc s =
     error_exit (not_found_message (hd (filter (\<lambda>i. i \<notin> fst ` set MODELS) ids))) 1 s"
proof (induction ids arbitrary: acc)
  case Nil
  then show ?case by simp
next
  case (Cons i ids)
  show ?case
  proof (cases "map_of MODELS i")
    case None
    then have "i \<notin> fst ` set MODELS"
      by (simp add: map_of_eq_None_iff)
    with None show ?thesis by simp
  next
    case (Some cfg)
    then have mem: "i \<in> fst ` set MODELS"
      by (metis domI dom_map_of_conv_image_fst)
    with Cons.prems have "\<not> set ids \<subseteq> fst ` set MODELS" by simp
    from Cons.IH [OF this, of "acc @ [cfg]"] Some mem show ?thesis by simp
  qed
qed

lemma find_models_loop_Inr:
  "find_models_loop ids acc s = (Inr r, s') \<Longrightarrow>
   set ids \<subseteq> fst ` set MODELS \<and> r = acc @ map (\<lambda>i. the (map_of MODELS i)) ids \<and> s' = s"
proof (cases "set ids \<subseteq> fst ` set MODELS")
  case True
  assume "find_models_loop ids acc s = (Inr r, s')"
  with find_models_loop_ok [OF True, of acc s] True show ?thesis by simp
next
  case False
  assume "find_models_loop ids acc s = (Inr r, s')"
  with find_models_loop_exit [OF False, of acc s] show ?thesis
    by (simp add: error_exit_def)
qed

lemma get_required_env_files: "files (snd (get_required_env k s)) = files s"
  by (simp add: get_required_env_def error_exit_def split: option.splits)

lemma get_required_env_Inr:
  "get_required_env k s = (Inr v, s') \<Longrightarrow> s' = s \<and> environ s k = Some v"
  by (auto simp: get_required_env_def error_exit_def split: option.splits if_splits)

lemma get_required_env_Inl:
  "get_required_env k s = (Inl e, s') \<Longrightarrow> files s' = files s"
  by (auto simp: get_required_env_def error_exit_def split: option.splits if_splits)

lemma main_writes_only_resolved:
  assumes "files (snd (main pf dumps s)) \<noteq> files s"
  shows "\<exists>ids_str out.
           environ s ''MODEL_IDS'' = Some ids_str \<and> environ s ''GITHUB_OUTPUT'' = Some out \<and>
           set (parse_model_ids ids_str) \<subseteq> fst ` set MODELS \<and>
           files (snd (main pf dumps s)) =
             (files s)(out \<mapsto> (case files s out of None \<Rightarrow> [] | Some old \<Rightarrow> old) @
               ''models_json='' @ dumps (map (\<lambda>i. the (map_of MODELS i)) (parse_model_ids ids_str))
               @ [CHR 0x0A])"
proof (cases "get_required_env ''MODEL_IDS'' s")
  case (Pair r1 s1)
  show ?thesis
  proof (cases r1)
    case (Inl e)
    with Pair assms get_required_env_Inl [of "''MODEL_IDS''" s e s1] show ?thesis
      by (simp add: main_def)
  next
    case (Inr ids_str)
    with Pair get_required_env_Inr [of "''MODEL_IDS''" s ids_str s1]
    have s1: "s1 = s" and e1: "environ s ''MODEL_IDS'' = Some ids_str" by simp_all
    show ?thesis
    proof (cases "get_required_env ''GITHUB_OUTPUT'' s")
      case (Pair r2 s2)
      note P2 = this
      show ?thesis
      proof (cases r2)
        case (Inl e)
        with P2 \<open>get_required_env ''MODEL_IDS'' s = (r1, s1)\<close> \<open>r1 = Inr ids_str\<close> s1 assms
          get_required_env_Inl [of "''GITHUB_OUTPUT''" s e s2]
        show ?thesis by (simp add: main_def)
      next
        case (Inr out)
        with P2 get_required_env_Inr [of "''GITHUB_OUTPUT''" s out s2]
        have s2: "s2 = s" and e2: "environ s ''GITHUB_OUTPUT'' = Some out" by simp_all
        let ?ids = "parse_model_ids ids_str"
        have pre: "main pf dumps s =
            (case find_models_by_id ?ids s of
               (Inl e, s3) \<Rightarrow> (Inl e, s3)
             | (Inr resolved, s3) \<Rightarrow>
               (let s4 = s3\<lparr>stdout := stdout s3 @
                   [''Resolved '' @ str_nat (length resolved) @ '' model(s): '' @ join '', '' ?ids]\<rparr>;
                    (passed, printed) = pf resolved (environ s4);
                    s5 = s4\<lparr>stdout := stdout s4 @ printed\<rparr>
                in if \<not> passed then error_exit ''Preflight LLM check failed'' 1 s5
                   else append_file out (''models_json='' @ dumps resolved @ [CHR 0x0A]) s5))"
          using \<open>get_required_env ''MODEL_IDS'' s = (r1, s1)\<close> \<open>r1 = Inr ids_str\<close> s1 P2 Inr s2
          by (simp add: main_def Let_def)
        show ?thesis
        proof (cases "set ?ids \<subseteq> fst ` set MODELS")
          case False
          from find_models_loop_exit [OF False, of "[]" s] pre assms show ?thesis
            by (simp add: find_models_by_id_def error_exit_def)
        next
          case True
          from find_models_loop_ok [OF True, of "[]" s]
          have f: "find_models_by_id ?ids s = (Inr (map (\<lambda>i. the (map_of MODELS i)) ?ids), s)"
            by (simp add: find_models_by_id_def)
          obtain passed printed where pf:
            "pf (map (\<lambda>i. the (map_of MODELS i)) ?ids) (environ s) = (passed, printed)"
            by (cases "pf (map (\<lambda>i. the (map_of MODELS i)) ?ids) (environ s)")
          from pre f pf assms e1 e2 True show ?thesis
            by (auto simp: Let_def error_exit_def append_file_def split: if_splits)
        qed
      qed
    qed
  qed
qed

text \<open>
  Claim C10. When every requested ID is a key of \<open>MODELS\<close>, \<open>find_models_by_id\<close> returns the
  configurations of the IDs in the order requested and changes nothing. Otherwise it exits
  with code 1, its message on stderr naming the first ID that is not a key, and no file is
  touched. Hence, whenever \<open>main\<close> changes a file at all, every ID parsed from \<open>MODEL_IDS\<close>
  is a key of \<open>MODELS\<close> and the change is one appended \<open>models_json=\<close> line for the whole
  resolved list, in the file named by \<open>GITHUB_OUTPUT\<close>.
\<close>

theorem find_models_by_id_all_or_exit:
  "(set ids \<subseteq> fst ` set MODELS \<longrightarrow>
      find_models_by_id ids s = (Inr (map (\<lambda>i. the (map_of MODELS i)) ids), s)) \<and>
   (\<not> set ids \<subseteq> fst ` set MODELS \<longrightarrow>
      find_models_by_id ids s =
        (Inl (SystemExit 1),
         s\<lparr>stderr := stderr s @
              [''ERROR: '' @ not_found_message (hd (filter (\<lambda>i. i \<notin> fst ` set MODELS) ids))]\<rparr>)) \<and>
   (files (snd (main pf dumps s)) \<noteq> files s \<longrightarrow>
      (\<exists>ids_str out.
          environ s ''MODEL_IDS'' = Some ids_str \<and> environ s ''GITHUB_OUTPUT'' = Some out \<and>
          set (parse_model_ids ids_str) \<subseteq> fst ` set MODELS \<and>
          files (snd (main pf dumps s)) =
            (files s)(out \<mapsto> (case files s out of None \<Rightarrow> [] | Some old \<Rightarrow> old) @
              ''models_json='' @ dumps (map (\<lambda>i. the (map_of MODELS i)) (parse_model_ids ids_str))
              @ [CHR 0x0A])))"
proof (intro conjI impI)
  assume "set ids \<subseteq> fst ` set MODELS"
  from find_models_loop_ok [OF this, of "[]" s]
  show "find_models_by_id ids s = (Inr (map (\<lambda>i. the (map_of MODELS i)) ids), s)"
    by (simp add: find_models_by_id_def)
next
  assume "\<not> set ids \<subseteq> fst ` set MODELS"
  from find_models_loop_exit [OF this, of "[]" s]
  show "find_models_by_id ids s =
        (Inl (SystemExit 1),
         s\<lparr>stderr := stderr s @
              [''ERROR: '' @ not_found_message (hd (filter (\<lambda>i. i \<notin> fst ` set MODELS) ids))]\<rparr>)"
    by (simp add: find_models_by_id_def error_exit_def)
next
  assume "files (snd (main pf dumps s)) \<noteq> files s"
  then show "\<exists>ids_str out.
          environ s ''MODEL_IDS'' = Some ids_str \<and> environ s ''GITHUB_OUTPUT'' = Some out \<and>
          set (parse_model_ids ids_str) \<subseteq> fst ` set MODELS \<and>
          files (snd (main pf dumps s)) =
            (files s)(out \<mapsto> (case files s out of None \<Rightarrow> [] | Some old \<Rightarrow> old) @
              ''models_json='' @ dumps (map (\<lambda>i. the (map_of MODELS i)) (parse_model_ids ids_str))
              @ [CHR 0x0A])"
    by (rule main_writes_only_resolved)
qed

definition sample_proc :: proc where
  "sample_proc = \<lparr>environ = [''MODEL_IDS'' \<mapsto> '' gpt-5.2, glm-5 ,'', ''GITHUB_OUTPUT'' \<mapsto> ''out.txt''],
         files = Map.empty, unwritable = {}, stdout = [], stderr = []\<rparr>"

lemma sample_main:
  "files (snd (main (\<lambda>r e. (True, [])) (\<lambda>r. str_nat (length r)) sample_proc)) ''out.txt''
     = Some (''models_json=2'' @ [CHR 0x0A])"
  by (simp add: main_def get_required_env_def sample_proc_def parse_model_ids_def strip_def
      isspace_def find_models_by_id_def MODELS_def model_entry_def append_file_def Let_def
      str_nat.simps digit_char_def)

theorem find_models_by_id_all_or_exit_witness:
  "find_models_by_id [''gpt-5.2'', ''glm-5''] sample_proc =
     (Inr [snd (model_entry ''gpt-5.2'' ''GPT-5.2''
              [(''model'', PStr ''litellm_proxy/openai/gpt-5.2-2025-12-11'')]),
           snd (model_entry ''glm-5'' ''GLM-5''
              [(''model'', PStr ''litellm_proxy/openrouter/z-ai/glm-5''), (''disable_vision'', PBool True)])],
      sample_proc) \<and>
   fst (find_models_by_id [''gpt-5.2'', ''nope'', ''glm-5''] sample_proc) = Inl (SystemExit 1) \<and>
   hd (filter (\<lambda>i. i \<notin> fst ` set MODELS) [''gpt-5.2'', ''nope'', ''glm-5'']) = ''nope'' \<and>
   set (parse_model_ids '' gpt-5.2, glm-5 ,'') \<subseteq> fst ` set MODELS \<and>
   files (snd (main (\<lambda>r e. (True, [])) (\<lambda>r. str_nat (length r)) sample_proc)) =
     [''out.txt'' \<mapsto> ''models_json=2'' @ [CHR 0x0A]]"
proof -
  have h1: "set [''gpt-5.2'', ''glm-5''] \<subseteq> fst ` set MODELS"
    by (simp add: MODELS_def model_entry_def)
  have h2: "\<not> set [''gpt-5.2'', ''nope'', ''glm-5''] \<subseteq> fst ` set MODELS"
    by (simp add: MODELS_def model_entry_def)
  have h3: "files (snd (main (\<lambda>r e. (True, [])) (\<lambda>r. str_nat (length r)) sample_proc))
              \<noteq> files sample_proc"
  proof
    assume "files (snd (main (\<lambda>r e. (True, [])) (\<lambda>r. str_nat (length r)) sample_proc))
              = files sample_proc"
    then have "files (snd (main (\<lambda>r e. (True, [])) (\<lambda>r. str_nat (length r)) sample_proc)) ''out.txt''
                 = files sample_proc ''out.txt''" by simp
    then show False
      by (simp add: sample_main) (simp add: sample_proc_def)
  qed
  have m: "map (\<lambda>i. the (map_of MODELS i)) [''gpt-5.2'', ''glm-5''] =
     [snd (model_entry ''gpt-5.2'' ''GPT-5.2''
              [(''model'', PStr ''litellm_proxy/openai/gpt-5.2-2025-12-11'')]),
      snd (model_entry ''glm-5'' ''GLM-5''
              [(''model'', PStr ''litellm_proxy/openrouter/z-ai/glm-5''), (''disable_vision'', PBool True)])]"
    by (simp add: MODELS_def model_entry_def)
  have f: "hd (filter (\<lambda>i. i \<notin> fst ` set MODELS) [''gpt-5.2'', ''nope'', ''glm-5'']) = ''nope''"
    by (simp add: MODELS_def model_entry_def)
  have p: "parse_model_ids '' gpt-5.2, glm-5 ,'' = [''gpt-5.2'', ''glm-5'']"
    by (simp add: parse_model_ids_def strip_def isspace_def)
  have e1: "environ sample_proc ''MODEL_IDS'' = Some '' gpt-5.2, glm-5 ,''"
    and e2: "environ sample_proc ''GITHUB_OUTPUT'' = Some ''out.txt''"
    and e3: "files sample_proc = Map.empty"
    by (simp_all add: sample_proc_def)
  note t1 = find_models_by_id_all_or_exit [of "[''gpt-5.2'', ''glm-5'']" sample_proc
      "\<lambda>r e. (True, [])" "\<lambda>r. str_nat (length r)"]
  note t2 = find_models_by_id_all_or_exit [of "[''gpt-5.2'', ''nope'', ''glm-5'']" sample_proc
      "\<lambda>r e. (True, [])" "\<lambda>r. str_nat (length r)"]
  from t1 h1 m have c1: "find_models_by_id [''gpt-5.2'', ''glm-5''] sample_proc =
     (Inr [snd (model_entry ''gpt-5.2'' ''GPT-5.2''
              [(''model'', PStr ''litellm_proxy/openai/gpt-5.2-2025-12-11'')]),
           snd (model_entry ''glm-5'' ''GLM-5''
              [(''model'', PStr ''litellm_proxy/openrouter/z-ai/glm-5''), (''disable_vision'', PBool True)])],
      sample_proc)" by simp
  from t2 h2 have c2: "fst (find_models_by_id [''gpt-5.2'', ''nope'', ''glm-5''] sample_proc) = Inl (SystemExit 1)"
    by simp
  from t1 h3 obtain ids_str out where
    a: "environ sample_proc ''MODEL_IDS'' = Some ids_str" and
    b: "environ sample_proc ''GITHUB_OUTPUT'' = Some out" and
    c: "files (snd (main (\<lambda>r e. (True, [])) (\<lambda>r. str_nat (length r)) sample_proc)) =
         (files sample_proc)(out \<mapsto> (case files sample_proc out of None \<Rightarrow> [] | Some old \<Rightarrow> old) @
            ''models_json='' @ str_nat (length (map (\<lambda>i. the (map_of MODELS i)) (parse_model_ids ids_str)))
            @ [CHR 0x0A])"
    by blast
  from a e1 have ids_str: "ids_str = '' gpt-5.2, glm-5 ,''" by simp
  from b e2 have out: "out = ''out.txt''" by simp
  have sn: "str_nat (Suc (Suc 0)) = ''2''"
    by (simp add: str_nat.simps digit_char_def)
  from c have c3:
    "files (snd (main (\<lambda>r e. (True, [])) (\<lambda>r. str_nat (length r)) sample_proc)) =
     [''out.txt'' \<mapsto> ''models_json=2'' @ [CHR 0x0A]]"
    unfolding ids_str out p e3 by (simp add: sn)
  from h1 p have c4: "set (parse_model_ids '' gpt-5.2, glm-5 ,'') \<subseteq> fst ` set MODELS" by simp
  from c1 c2 f c3 c4 show ?thesis by blast
qed

section \<open>The event directory and benchmark\_utils.py\<close>

text \<open>
  A directory as the scripts read it: \<open>listing\<close> is what \<open>os.listdir\<close> returns (distinct
  names, in an order the file system chooses) and \<open>contents\<close> gives the text of every entry
  that \<open>open\<close> can read; opening any other entry (a subdirectory, say) raises \<open>OSError\<close>.
\<close>

record directory =
  listing :: "string list"
  contents :: "string \<rightharpoonup> string"


text \<open>One element of the list that \<open>read_event_files\<close> returns.\<close>

record event_file =
  filename :: string
  json_str :: string
  size_bytes :: nat
  kind :: pyval


definition json_files :: "string list \<Rightarrow> string list" where
  "json_files names = filter (\<lambda>f. endswith f ''.json'') (sort names)"




section \<open>bench\_replay\_and\_recovery.py\<close>

text \<open>
  The pattern \<open>^event-(\d+)-([a-f0-9\-]+)\.json$\<close> under \<open>pattern.match\<close>. Neither group can
  give a character back: a digit run is followed by \<open>-\<close>, which is no digit, and the run of
  the second group by \<open>.\<close>, which is outside its class. \<open>$\<close> matches at the end of the
  string and also before a newline that ends it. The result is the pair of the two groups.
\<close>

definition isdigit :: "char \<Rightarrow> bool" where
  "isdigit c = (CHR ''0'' \<le> c \<and> c \<le> CHR ''9'')"

definition id_char :: "char \<Rightarrow> bool" where
  "id_char c = ((CHR ''a'' \<le> c \<and> c \<le> CHR ''f'') \<or> (CHR ''0'' \<le> c \<and> c \<le> CHR ''9'') \<or> c = CHR ''-'')"

definition pattern_match :: "string \<Rightarrow> (string \<times> string) option" where
  "pattern_match fname =
     (if take 6 fname \<noteq> ''event-'' then None
      else let rest = drop 6 fname;
               g1 = takeWhile isdigit rest;
               rest1 = dropWhile isdigit rest
           in if g1 = [] then None
              else (case rest1 of
                      [] \<Rightarrow> None
                    | c # rest2 \<Rightarrow>
                        if c \<noteq> CHR ''-'' then None
                        else let g2 = takeWhile id_char rest2;
                                 rest3 = dropWhile id_char rest2
                             in if g2 = [] then None
                                else if rest3 = ''.json'' \<or> rest3 = ''.json'' @ [CHR 0x0A]
                                then Some (g1, g2) else None))"

text \<open>\<open>int(s)\<close> on a string of decimal digits.\<close>

definition digit_val :: "char \<Rightarrow> nat" where
  "digit_val c = of_char c - 48"

definition int_of_digits :: "string \<Rightarrow> nat" where
  "int_of_digits s = foldl (\<lambda>a c. 10 * a + digit_val c) 0 s"

text \<open>
  The index rebuild: the \<open>dict\<close> \<open>index\<close> is an association list in insertion order, and
  \<open>index[k] = fname\<close> replaces the value of a key that is present and appends a new key
  (\<open>AList.update\<close>).
\<close>

definition index_step :: "string \<Rightarrow> (nat \<times> string) list \<Rightarrow> (nat \<times> string) list" where
  "index_step fname index =
     (case pattern_match fname of
        None \<Rightarrow> index
      | Some (g1, g2) \<Rightarrow> AList.update (int_of_digits g1) fname index)"

definition index_rebuild :: "string list \<Rightarrow> (nat \<times> string) list" where
  "index_rebuild names = fold index_step (json_files names) []"

text \<open>
  The replay loop: every file of \<open>json_files\<close> is opened and parsed by \<open>json.load\<close>, in the
  order of the list; the first exception ends the loop. The model keeps the parsed values.
\<close>

fun load_each :: "(string \<Rightarrow> py_error + 'a) \<Rightarrow> directory \<Rightarrow> string list \<Rightarrow> 'a list \<Rightarrow> py_error + 'a list" where
  "load_each parse d [] done = Inr done"
| "load_each parse d (fname # rest) done =
     (case contents d fname of
        None \<Rightarrow> Inl (OSError fname)
      | Some content \<Rightarrow>
          (case parse content of
             Inl e \<Rightarrow> Inl e
           | Inr v \<Rightarrow> load_each parse d rest (done @ [v])))"

definition full_replay :: "(string \<Rightarrow> py_error + pyval) \<Rightarrow> directory \<Rightarrow> py_error + pyval list" where
  "full_replay json_loads d = load_each json_loads d (json_files (listing d)) []"

subsection \<open>What read\_event\_files returns\<close>






subsection \<open>A sample directory\<close>

text \<open>
  \<open>json.loads\<close> on the texts that the examples below use: the texts of the table are JSON and
  parse to the values beside them, the other texts of the examples are not JSON and raise.
\<close>

definition sample_parses :: "(string \<times> pyval) list" where
  \<open>sample_parses =
     [(''{"kind": "ActionEvent"}'', PDict [(''kind'', PStr ''ActionEvent'')]),
      (''{"id": "b2"}'', PDict [(''id'', PStr ''b2'')]),
      (''[1, 2]'', PList [PInt 1, PInt 2]),
      (''{"index": 2}'', PDict [(''index'', PInt 2)]),
      (''{"index": 10}'', PDict [(''index'', PInt 10)]),
      (''{"kind": "ObservationEvent", "index": 3, "id": "0b3", "cause_id": "a1", "payload": null}'',
       PDict [(''kind'', PStr ''ObservationEvent''), (''index'', PInt 3), (''id'', PStr ''0b3''),
              (''cause_id'', PStr ''a1''), (''payload'', PNone)])]\<close>

definition sample_json_loads :: "string \<Rightarrow> py_error + pyval" where
  "sample_json_loads content =
     (case map_of sample_parses content of
        None \<Rightarrow> Inl (JSONDecodeError ''Expecting value: line 1 column 1 (char 0)'')
      | Some v \<Rightarrow> Inr v)"

definition sample_dir :: directory where
  \<open>sample_dir =
     \<lparr>listing = [''event-00001-b2.json'', ''.eventlog.lock'', ''event-00000-a1.json'', ''notes.json''],
      contents = [''event-00000-a1.json'' \<mapsto> ''{"kind": "ActionEvent"}'',
                  ''event-00001-b2.json'' \<mapsto> ''{"id": "b2"}'',
                  ''notes.json'' \<mapsto> ''caf'' @ [CHR 0xE9],
                  ''.eventlog.lock'' \<mapsto> []]\<rparr>\<close>



subsection \<open>The index rebuild\<close>

text \<open>
  The index that the rebuild reads off a name: \<open>int(m.group(1))\<close> when the name ends in
  \<open>.json\<close> and the pattern matches it.
\<close>

definition file_index :: "string \<Rightarrow> nat option" where
  "file_index fname =
     (if endswith fname ''.json'' then map_option (\<lambda>(g1, g2). int_of_digits g1) (pattern_match fname)
      else None)"

lemma index_step_file_index:
  "endswith f ''.json'' \<Longrightarrow>
   index_step f index = (case file_index f of None \<Rightarrow> index | Some k \<Rightarrow> AList.update k f index)"
  by (simp add: index_step_def file_index_def split: option.splits)

lemma fold_index_step_skip:
  "\<forall>f \<in> set xs. endswith f ''.json'' \<Longrightarrow>
   fold index_step xs acc = fold index_step (filter (\<lambda>f. file_index f \<noteq> None) xs) acc"
  by (induction xs arbitrary: acc) (auto simp: index_step_file_index)

lemma file_index_json: "file_index f \<noteq> None \<Longrightarrow> endswith f ''.json''"
  by (simp add: file_index_def split: if_splits)

lemma file_index_Some_json: "file_index f = Some k \<Longrightarrow> endswith f ''.json''"
  by (simp add: file_index_def split: if_splits)

lemma in_set_update:
  "(k, v) \<in> set (AList.update j x al) \<Longrightarrow> (k, v) \<in> set al \<or> (k, v) = (j, x)"
  by (induction al) (auto split: if_splits)

lemma index_rebuild_indexed:
  "index_rebuild names = fold index_step (sort (filter (\<lambda>f. file_index f \<noteq> None) names)) []"
proof -
  have "index_rebuild names =
        fold index_step (filter (\<lambda>f. file_index f \<noteq> None) (json_files names)) []"
    unfolding index_rebuild_def
    by (rule fold_index_step_skip) (simp add: json_files_def)
  also have "filter (\<lambda>f. file_index f \<noteq> None) (json_files names) =
             sort (filter (\<lambda>f. file_index f \<noteq> None \<and> endswith f ''.json'') names)"
    by (simp add: json_files_def filter_sort conj_commute)
  also have "filter (\<lambda>f. file_index f \<noteq> None \<and> endswith f ''.json'') names =
             filter (\<lambda>f. file_index f \<noteq> None) names"
    by (rule filter_cong) (auto dest: file_index_Some_json)
  finally show ?thesis .
qed

lemma fold_index_step_entries:
  "\<forall>f \<in> set xs. file_index f \<noteq> None \<Longrightarrow> (k, f) \<in> set (fold index_step xs acc) \<Longrightarrow>
   (k, f) \<in> set acc \<or> (f \<in> set xs \<and> file_index f = Some k)"
proof (induction xs arbitrary: acc)
  case Nil
  then show ?case by simp
next
  case (Cons x xs)
  from Cons.prems obtain j where j: "file_index x = Some j" by auto
  then have step: "index_step x acc = AList.update j x acc"
    by (simp add: index_step_file_index file_index_json)
  from Cons.prems have "\<forall>f \<in> set xs. file_index f \<noteq> None" by simp
  from Cons.IH [OF this, of "index_step x acc"] Cons.prems(2)
  have "(k, f) \<in> set (AList.update j x acc) \<or> (f \<in> set xs \<and> file_index f = Some k)"
    by (simp add: step)
  moreover have "(k, f) \<in> set (AList.update j x acc) \<Longrightarrow> (k, f) \<in> set acc \<or> (k, f) = (j, x)"
    by (rule in_set_update)
  ultimately show ?case using j by auto
qed

lemma fold_index_step_keys:
  "\<forall>f \<in> set xs. file_index f \<noteq> None \<Longrightarrow>
   fst ` set (fold index_step xs acc) = fst ` set acc \<union> (\<lambda>f. the (file_index f)) ` set xs"
proof (induction xs arbitrary: acc)
  case Nil
  then show ?case by simp
next
  case (Cons x xs)
  from Cons.prems obtain j where j: "file_index x = Some j" by auto
  then have step: "index_step x acc = AList.update j x acc"
    by (simp add: index_step_file_index file_index_json)
  from Cons.prems have "\<forall>f \<in> set xs. file_index f \<noteq> None" by simp
  from Cons.IH [OF this, of "index_step x acc"] show ?case
    by (simp add: step dom_update j)
qed



lemma index_rebuild_keys:
  "fst ` set (index_rebuild names) = {k. \<exists>f \<in> set names. file_index f = Some k}"
proof -
  have "fst ` set (index_rebuild names)
        = (\<lambda>f. the (file_index f)) ` set (sort (filter (\<lambda>f. file_index f \<noteq> None) names))"
    unfolding index_rebuild_indexed by (subst fold_index_step_keys) auto
  also have "\<dots> = {k. \<exists>f \<in> set names. file_index f = Some k}"
    by force
  finally show ?thesis .
qed

lemma index_rebuild_entries:
  "(k, f) \<in> set (index_rebuild names) \<Longrightarrow> f \<in> set names \<and> file_index f = Some k"
  unfolding index_rebuild_indexed
  by (drule fold_index_step_entries [rotated]) auto



lemmas eval_index = index_rebuild_def json_files_def endswith_def index_step_def pattern_match_def
  isdigit_def id_char_def int_of_digits_def digit_val_def


text \<open>
  Claim C6, as the code has it. The rebuild never aborts and returns the index alone. A
  listed name that does not end in \<open>.json\<close> or that the pattern does not match is skipped
  and leaves no trace: the result is the one for the listing without such names. Every
  entry of the index is a listed name under the index read off it, and every listed name
  that matches has its index among the keys.
\<close>

theorem index_rebuild_skips_unreported:
  "index_rebuild names = index_rebuild (filter (\<lambda>f. file_index f \<noteq> None) names) \<and>
   (\<forall>(k, f) \<in> set (index_rebuild names). f \<in> set names \<and> file_index f = Some k) \<and>
   (\<forall>f \<in> set names. file_index f \<noteq> None \<longrightarrow> the (file_index f) \<in> fst ` set (index_rebuild names))"
proof (intro conjI)
  show "index_rebuild names = index_rebuild (filter (\<lambda>f. file_index f \<noteq> None) names)"
    by (simp add: index_rebuild_indexed)
  show "\<forall>(k, f) \<in> set (index_rebuild names). f \<in> set names \<and> file_index f = Some k"
    by (auto dest: index_rebuild_entries)
  show "\<forall>f \<in> set names. file_index f \<noteq> None \<longrightarrow> the (file_index f) \<in> fst ` set (index_rebuild names)"
    by (auto simp: index_rebuild_keys)
qed

theorem index_rebuild_skips_unreported_witness:
  "index_rebuild [''event-0-a.json'', ''notes.json'', ''event-x.json'', ''event-1-B.json''] =
     [(0, ''event-0-a.json'')] \<and>
   filter (\<lambda>f. file_index f \<noteq> None) [''event-0-a.json'', ''notes.json'', ''event-x.json'', ''event-1-B.json'']
     = [''event-0-a.json'']"
proof -
  let ?names = "[''event-0-a.json'', ''notes.json'', ''event-x.json'', ''event-1-B.json'']"
  have f: "filter (\<lambda>f. file_index f \<noteq> None) ?names = [''event-0-a.json'']"
    by (simp add: file_index_def eval_index)
  have e: "index_rebuild [''event-0-a.json''] = [(0, ''event-0-a.json'')]"
    by (simp add: eval_index)
  from index_rebuild_skips_unreported [of ?names]
  have "index_rebuild ?names = index_rebuild (filter (\<lambda>f. file_index f \<noteq> None) ?names)"
    by (rule conjunct1)
  also note f
  also note e
  finally show ?thesis using f by simp
qed

text \<open>
  The claim as stated fails: a directory with two names that the rebuild skips gives the
  very result of the directory without them, so the result reports neither a count nor a
  list of what was skipped.
\<close>

theorem index_rebuild_report_counterexample:
  "index_rebuild [''event-0-a.json'', ''notes.json'', ''event-x.json''] =
     index_rebuild [''event-0-a.json''] \<and>
   length (filter (\<lambda>f. file_index f = None) [''event-0-a.json'', ''notes.json'', ''event-x.json'']) = 2 \<and>
   length (filter (\<lambda>f. file_index f = None) [''event-0-a.json'']) = 0"
  by (simp add: file_index_def eval_index)

subsection \<open>The replay loop\<close>


lemma load_each_first_bad:
  "\<forall>f \<in> set names. f \<in> dom (contents d) \<Longrightarrow>
   \<exists>f \<in> set names. \<exists>e. parse (the (contents d f)) = Inl e \<Longrightarrow>
   \<exists>pre f post e. names = pre @ f # post \<and>
      (\<forall>g \<in> set pre. \<exists>v. parse (the (contents d g)) = Inr v) \<and>
      parse (the (contents d f)) = Inl e \<and> load_each parse d names acc = Inl e"
proof (induction names arbitrary: acc)
  case Nil
  then show ?case by simp
next
  case (Cons x names)
  from Cons.prems(1) obtain c where c: "contents d x = Some c" by auto
  show ?case
  proof (cases "parse c")
    case (Inl e)
    with c have "x # names = [] @ x # names \<and>
      (\<forall>g \<in> set []. \<exists>v. parse (the (contents d g)) = Inr v) \<and>
      parse (the (contents d x)) = Inl e \<and> load_each parse d (x # names) acc = Inl e"
      by simp
    then show ?thesis by blast
  next
    case (Inr v)
    with c Cons.prems(2) have bad: "\<exists>f \<in> set names. \<exists>e. parse (the (contents d f)) = Inl e"
      by auto
    from Cons.prems(1) have "\<forall>f \<in> set names. f \<in> dom (contents d)" by simp
    from Cons.IH [OF this bad, of "acc @ [v]"]
    obtain pre f post e where p: "names = pre @ f # post"
      "\<forall>g \<in> set pre. \<exists>v. parse (the (contents d g)) = Inr v"
      "parse (the (contents d f)) = Inl e" "load_each parse d names (acc @ [v]) = Inl e"
      by blast
    from p c Inr have "x # names = (x # pre) @ f # post \<and>
      (\<forall>g \<in> set (x # pre). \<exists>v. parse (the (contents d g)) = Inr v) \<and>
      parse (the (contents d f)) = Inl e \<and> load_each parse d (x # names) acc = Inl e"
      by simp
    then show ?thesis by blast
  qed
qed

lemma sorted_split_before:
  fixes f :: "'a :: linorder"
  assumes "sorted (pre @ f # post)" "g \<in> set (pre @ f # post)" "g < f"
  shows "g \<in> set pre"
proof -
  from assms(1) have "\<forall>y \<in> set post. f \<le> y"
    by (simp add: sorted_append)
  with assms(2,3) show ?thesis by auto
qed

lemma set_json_files: "set (json_files names) = {f \<in> set names. endswith f ''.json''}"
  by (auto simp: json_files_def)

lemma sorted_json_files: "sorted (json_files names)"
  by (simp add: json_files_def sorted_wrt_filter)

text \<open>
  Claim C5, as the code has it. When every listed \<open>.json\<close> entry is a readable file and the
  text of at least one of them is not valid JSON, the replay loop ends in an error and
  returns no sequence at all: the error is the one \<open>json.load\<close> raised for the first such
  file in ascending order of the names. That error is a function of the text alone.
\<close>

theorem full_replay_invalid_json:
  assumes "\<forall>f \<in> set (listing d). endswith f ''.json'' \<longrightarrow> f \<in> dom (contents d)"
    and "\<exists>f \<in> set (listing d). endswith f ''.json'' \<and> (\<exists>e. json_loads (the (contents d f)) = Inl e)"
  shows "\<exists>f e. f \<in> set (listing d) \<and> endswith f ''.json'' \<and>
           json_loads (the (contents d f)) = Inl e \<and>
           full_replay json_loads d = Inl e \<and>
           (\<forall>g \<in> set (listing d). endswith g ''.json'' \<and> g < f \<longrightarrow>
              (\<exists>v. json_loads (the (contents d g)) = Inr v))"
proof -
  let ?names = "json_files (listing d)"
  from assms(1) have r: "\<forall>f \<in> set ?names. f \<in> dom (contents d)"
    by (simp add: set_json_files)
  from assms(2) have b: "\<exists>f \<in> set ?names. \<exists>e. json_loads (the (contents d f)) = Inl e"
    unfolding set_json_files by blast
  from load_each_first_bad [OF r b, of "[]"]
  obtain pre f post e where p: "?names = pre @ f # post"
    "\<forall>g \<in> set pre. \<exists>v. json_loads (the (contents d g)) = Inr v"
    "json_loads (the (contents d f)) = Inl e" "load_each json_loads d ?names [] = Inl e"
    by blast
  from p(1) have fin: "f \<in> set ?names"
    by simp
  have before: "\<exists>v. json_loads (the (contents d g)) = Inr v"
    if "g \<in> set (listing d)" "endswith g ''.json''" "g < f" for g
  proof -
    from that have m: "g \<in> set (pre @ f # post)"
      using p(1) set_json_files [of "listing d"] by auto
    have s: "sorted (pre @ f # post)"
      using sorted_json_files [of "listing d"] p(1) by simp
    from s m that(3) have "g \<in> set pre"
      by (rule sorted_split_before)
    with p(2) show ?thesis by blast
  qed
  from fin have "f \<in> set (listing d)" "endswith f ''.json''"
    by (simp_all add: set_json_files)
  with p(3,4) before show ?thesis
    unfolding full_replay_def by blast
qed

theorem full_replay_invalid_json_witness:
  "full_replay sample_json_loads sample_dir =
     Inl (JSONDecodeError ''Expecting value: line 1 column 1 (char 0)'')"
proof -
  have r: "\<forall>f \<in> set (listing sample_dir). endswith f ''.json'' \<longrightarrow> f \<in> dom (contents sample_dir)"
    by (simp add: sample_dir_def endswith_def)
  have "endswith ''notes.json'' ''.json'' \<and>
        sample_json_loads (the (contents sample_dir ''notes.json'')) =
          Inl (JSONDecodeError ''Expecting value: line 1 column 1 (char 0)'')"
    by (simp add: sample_dir_def endswith_def sample_json_loads_def sample_parses_def)
  moreover have "''notes.json'' \<in> set (listing sample_dir)"
    by (simp add: sample_dir_def)
  ultimately have b: "\<exists>f \<in> set (listing sample_dir). endswith f ''.json'' \<and>
      (\<exists>e. sample_json_loads (the (contents sample_dir f)) = Inl e)"
    by blast
  from full_replay_invalid_json [OF r b] obtain f e where
    e: "sample_json_loads (the (contents sample_dir f)) = Inl e" and
    f: "full_replay sample_json_loads sample_dir = Inl e"
    by blast
  from e have "e = JSONDecodeError ''Expecting value: line 1 column 1 (char 0)''"
    by (simp add: sample_json_loads_def split: option.splits)
  with f show ?thesis by simp
qed

text \<open>
  The claim as stated fails twice. A directory that holds a file whose text is not JSON is
  replayed without error when the name of that file does not end in \<open>.json\<close> (here the lock
  artifact, which is empty). And the error of a replay that fails does not name the file:
  the same text under two different names gives the same error.
\<close>

definition lock_dir :: directory where
  \<open>lock_dir =
     \<lparr>listing = [''event-00000-a1.json'', ''.eventlog.lock''],
      contents = [''event-00000-a1.json'' \<mapsto> ''{"kind": "ActionEvent"}'', ''.eventlog.lock'' \<mapsto> []]\<rparr>\<close>

definition bad_dir :: "string \<Rightarrow> directory" where
  "bad_dir fname = \<lparr>listing = [fname], contents = [fname \<mapsto> ''not json'']\<rparr>"

theorem full_replay_corrupt_event_counterexample:
  "sample_json_loads (the (contents lock_dir ''.eventlog.lock'')) =
     Inl (JSONDecodeError ''Expecting value: line 1 column 1 (char 0)'') \<and>
   full_replay sample_json_loads lock_dir = Inr [PDict [(''kind'', PStr ''ActionEvent'')]] \<and>
   full_replay sample_json_loads (bad_dir ''event-00000-a1.json'') =
     Inl (JSONDecodeError ''Expecting value: line 1 column 1 (char 0)'') \<and>
   full_replay sample_json_loads (bad_dir ''event-00007-b2.json'') =
     Inl (JSONDecodeError ''Expecting value: line 1 column 1 (char 0)'')"
  by (simp add: full_replay_def json_files_def endswith_def lock_dir_def bad_dir_def
      sample_json_loads_def sample_parses_def)

subsection \<open>Digits, names and their order\<close>























section \<open>The event log that the scripts exercise\<close>

text \<open>
  The scripts call into the SDK for the event classes, \<open>ConversationState.get_unmatched_actions\<close>,
  \<open>Event.model_validate_json\<close> and \<open>LocalFileStore\<close>; none of these is under \<open>src/\<close>. The
  definitions of this section are modelled from the specification and say so.
\<close>

text \<open>
  Modelled from the spec: the \<open>Event\<close> record (section 3), whose classes are not under
  \<open>src/\<close>. The variants are the six observed kinds; each carries its payload as an opaque
  value, and an \<open>ObservationEvent\<close> carries in addition the \<open>id\<close> of the action it resolves.
\<close>

datatype event_body =
    SystemPromptEvent pyval
  | MessageEvent pyval
  | ActionEvent pyval
  | ObservationEvent string pyval
  | ConversationStateUpdateEvent pyval
  | AgentErrorEvent pyval

record event =
  ev_index :: nat
  ev_id :: string
  ev_body :: event_body

text \<open>
  Modelled from the spec: \<open>RecoveryAnalyzer.find_unmatched_actions\<close> (section 4.5), the
  SDK's \<open>get_unmatched_actions\<close>, which is not under \<open>src/\<close>. One scan from the first event
  to the last: the \<open>id\<close> of every \<open>ActionEvent\<close> enters the pending set, an
  \<open>ObservationEvent\<close> that references a pending \<open>id\<close> removes it, and one that references
  an \<open>id\<close> that is not pending is recorded as an anomaly. The pending set that remains is
  the result.
\<close>

fun analyze_step :: "string set \<times> string list \<Rightarrow> event \<Rightarrow> string set \<times> string list" where
  "analyze_step (pending, anomalies) e =
     (case ev_body e of
        ActionEvent p \<Rightarrow> (insert (ev_id e) pending, anomalies)
      | ObservationEvent cause p \<Rightarrow>
          if cause \<in> pending then (pending - {cause}, anomalies)
          else (pending, anomalies @ [ev_id e])
      | _ \<Rightarrow> (pending, anomalies))"

definition analyze :: "event list \<Rightarrow> string set \<times> string list" where
  "analyze es = foldl analyze_step ({}, []) es"

definition find_unmatched_actions :: "event list \<Rightarrow> string set" where
  "find_unmatched_actions es = fst (analyze es)"

text \<open>An event is the action \<open>a\<close>; an event is an observation of the action \<open>a\<close>.\<close>

definition is_action :: "string \<Rightarrow> event \<Rightarrow> bool" where
  "is_action a e = (case ev_body e of ActionEvent p \<Rightarrow> ev_id e = a | _ \<Rightarrow> False)"

definition observes :: "string \<Rightarrow> event \<Rightarrow> bool" where
  "observes a e = (case ev_body e of ObservationEvent cause p \<Rightarrow> cause = a | _ \<Rightarrow> False)"

subsection \<open>Unmatched actions\<close>

lemma analyze_step_pending:
  "fst (analyze_step (P, A) e) =
     (if \<exists>a. is_action a e then insert (ev_id e) P
      else if \<exists>a. observes a e then P - {a. observes a e} else P)"
  by (cases "ev_body e") (auto simp: is_action_def observes_def)

lemma is_action_not_observes: "is_action a e \<Longrightarrow> \<not> observes b e"
  by (auto simp: is_action_def observes_def split: event_body.splits)

lemma is_action_id: "is_action a e \<Longrightarrow> a = ev_id e"
  by (auto simp: is_action_def split: event_body.splits)

lemma pending_after_scan:
  "fst (foldl analyze_step (P, A) es) =
     {a. (a \<in> P \<and> (\<forall>e \<in> set es. \<not> observes a e)) \<or>
         (\<exists>pre e post. es = pre @ e # post \<and> is_action a e \<and> (\<forall>e' \<in> set post. \<not> observes a e'))}"
proof (induction es arbitrary: P A)
  case Nil
  then show ?case by simp
next
  case (Cons x es)
  obtain P' A' where step: "analyze_step (P, A) x = (P', A')"
    by (cases "analyze_step (P, A) x")
  have P': "P' = (if \<exists>a. is_action a x then insert (ev_id x) P
                  else if \<exists>a. observes a x then P - {a. observes a x} else P)"
    using analyze_step_pending [of P A x] step by simp
  have split: "(\<exists>pre e post. x # es = pre @ e # post \<and> is_action a e \<and> (\<forall>e' \<in> set post. \<not> observes a e'))
      \<longleftrightarrow> (is_action a x \<and> (\<forall>e' \<in> set es. \<not> observes a e')) \<or>
          (\<exists>pre e post. es = pre @ e # post \<and> is_action a e \<and> (\<forall>e' \<in> set post. \<not> observes a e'))"
    for a
  proof
    assume "\<exists>pre e post. x # es = pre @ e # post \<and> is_action a e \<and> (\<forall>e' \<in> set post. \<not> observes a e')"
    then obtain pre e post where d: "x # es = pre @ e # post" "is_action a e"
      "\<forall>e' \<in> set post. \<not> observes a e'" by blast
    show "(is_action a x \<and> (\<forall>e' \<in> set es. \<not> observes a e')) \<or>
          (\<exists>pre e post. es = pre @ e # post \<and> is_action a e \<and> (\<forall>e' \<in> set post. \<not> observes a e'))"
    proof (cases pre)
      case Nil
      with d show ?thesis by simp
    next
      case (Cons y pre')
      with d have "es = pre' @ e # post" by simp
      with d show ?thesis by blast
    qed
  next
    assume "(is_action a x \<and> (\<forall>e' \<in> set es. \<not> observes a e')) \<or>
          (\<exists>pre e post. es = pre @ e # post \<and> is_action a e \<and> (\<forall>e' \<in> set post. \<not> observes a e'))"
    then show "\<exists>pre e post. x # es = pre @ e # post \<and> is_action a e \<and> (\<forall>e' \<in> set post. \<not> observes a e')"
    proof
      assume "is_action a x \<and> (\<forall>e' \<in> set es. \<not> observes a e')"
      then have "x # es = [] @ x # es \<and> is_action a x \<and> (\<forall>e' \<in> set es. \<not> observes a e')" by simp
      then show ?thesis by blast
    next
      assume "\<exists>pre e post. es = pre @ e # post \<and> is_action a e \<and> (\<forall>e' \<in> set post. \<not> observes a e')"
      then obtain pre e post where "es = pre @ e # post" "is_action a e"
        "\<forall>e' \<in> set post. \<not> observes a e'" by blast
      then have "x # es = (x # pre) @ e # post \<and> is_action a e \<and> (\<forall>e' \<in> set post. \<not> observes a e')"
        by simp
      then show ?thesis by blast
    qed
  qed
  have "fst (foldl analyze_step (P, A) (x # es)) = fst (foldl analyze_step (P', A') es)"
    by (simp only: foldl_Cons step)
  also have "\<dots> = {a. (a \<in> P' \<and> (\<forall>e \<in> set es. \<not> observes a e)) \<or>
         (\<exists>pre e post. es = pre @ e # post \<and> is_action a e \<and> (\<forall>e' \<in> set post. \<not> observes a e'))}"
    by (rule Cons.IH)
  also have "\<dots> = {a. (a \<in> P \<and> (\<forall>e \<in> set (x # es). \<not> observes a e)) \<or>
         (\<exists>pre e post. x # es = pre @ e # post \<and> is_action a e \<and> (\<forall>e' \<in> set post. \<not> observes a e'))}"
    unfolding split P'
    by (auto dest: is_action_not_observes is_action_id)
  finally show ?case .
qed

lemma later_positions:
  "(\<exists>pre e post. es = pre @ e # post \<and> is_action a e \<and> (\<forall>e' \<in> set post. \<not> observes a e')) \<longleftrightarrow>
   (\<exists>i < length es. is_action a (es ! i) \<and> (\<forall>j. i < j \<and> j < length es \<longrightarrow> \<not> observes a (es ! j)))"
proof
  assume "\<exists>pre e post. es = pre @ e # post \<and> is_action a e \<and> (\<forall>e' \<in> set post. \<not> observes a e')"
  then obtain pre e post where d: "es = pre @ e # post" "is_action a e"
    "\<forall>e' \<in> set post. \<not> observes a e'" by blast
  have "\<not> observes a (es ! j)" if "length pre < j" "j < length es" for j
  proof -
    from that d(1) have "es ! j = post ! (j - Suc (length pre))" "j - Suc (length pre) < length post"
      by (auto simp: nth_append nth_Cons')
    with d(3) show ?thesis by (metis nth_mem)
  qed
  with d(1,2) have "length pre < length es \<and> is_action a (es ! length pre) \<and>
      (\<forall>j. length pre < j \<and> j < length es \<longrightarrow> \<not> observes a (es ! j))"
    by simp
  then show "\<exists>i < length es. is_action a (es ! i) \<and> (\<forall>j. i < j \<and> j < length es \<longrightarrow> \<not> observes a (es ! j))"
    by blast
next
  assume "\<exists>i < length es. is_action a (es ! i) \<and> (\<forall>j. i < j \<and> j < length es \<longrightarrow> \<not> observes a (es ! j))"
  then obtain i where i: "i < length es" "is_action a (es ! i)"
    "\<forall>j. i < j \<and> j < length es \<longrightarrow> \<not> observes a (es ! j)" by blast
  from i(1) have "es = take i es @ es ! i # drop (Suc i) es"
    by (rule id_take_nth_drop)
  moreover have "\<forall>e' \<in> set (drop (Suc i) es). \<not> observes a e'"
  proof
    fix e' assume "e' \<in> set (drop (Suc i) es)"
    then obtain k where k: "k < length (drop (Suc i) es)" "e' = drop (Suc i) es ! k"
      by (metis in_set_conv_nth)
    then have "e' = es ! (Suc i + k)" "Suc i + k < length es" by auto
    with i(3) show "\<not> observes a e'" by simp
  qed
  ultimately show "\<exists>pre e post. es = pre @ e # post \<and> is_action a e \<and>
      (\<forall>e' \<in> set post. \<not> observes a e')"
    using i(2) by blast
qed

text \<open>The scenario of section 8, and a log in which the observation precedes its action.\<close>

definition scenario_events :: "event list" where
  "scenario_events =
     [\<lparr>ev_index = 0, ev_id = ''s0'', ev_body = SystemPromptEvent PNone\<rparr>,
      \<lparr>ev_index = 1, ev_id = ''m1'', ev_body = MessageEvent PNone\<rparr>,
      \<lparr>ev_index = 2, ev_id = ''a1'', ev_body = ActionEvent PNone\<rparr>,
      \<lparr>ev_index = 3, ev_id = ''o3'', ev_body = ObservationEvent ''a1'' PNone\<rparr>,
      \<lparr>ev_index = 4, ev_id = ''a2'', ev_body = ActionEvent PNone\<rparr>]"

definition backward_events :: "event list" where
  "backward_events =
     [\<lparr>ev_index = 0, ev_id = ''o0'', ev_body = ObservationEvent ''a1'' PNone\<rparr>,
      \<lparr>ev_index = 1, ev_id = ''a1'', ev_body = ActionEvent PNone\<rparr>]"

lemma analyze_scenario: "analyze scenario_events = ({''a2''}, [])"
  by (simp add: analyze_def scenario_events_def)

lemma analyze_backward: "analyze backward_events = ({''a1''}, [''o0''])"
  by (simp add: analyze_def backward_events_def)

text \<open>
  Claim C2. The result of \<open>find_unmatched_actions\<close> is the set of the \<open>id\<close>s of the
  \<open>ActionEvent\<close>s that no \<open>ObservationEvent\<close> references from a strictly later position:
  an observation at an earlier position does not count. For the scenario of the
  specification the result is \<open>{a2}\<close>.
\<close>

theorem find_unmatched_actions_forward:
  "find_unmatched_actions es =
     {a. \<exists>i < length es. is_action a (es ! i) \<and>
           (\<forall>j. i < j \<and> j < length es \<longrightarrow> \<not> observes a (es ! j))} \<and>
   find_unmatched_actions scenario_events = {''a2''}"
proof
  show "find_unmatched_actions es =
     {a. \<exists>i < length es. is_action a (es ! i) \<and>
           (\<forall>j. i < j \<and> j < length es \<longrightarrow> \<not> observes a (es ! j))}"
    unfolding find_unmatched_actions_def analyze_def pending_after_scan later_positions
    by simp
  show "find_unmatched_actions scenario_events = {''a2''}"
    by (simp add: find_unmatched_actions_def analyze_scenario)
qed

theorem find_unmatched_actions_forward_witness:
  "find_unmatched_actions backward_events = {''a1''} \<and>
   {a. \<exists>i < length backward_events. is_action a (backward_events ! i) \<and>
         (\<forall>j. i < j \<and> j < length backward_events \<longrightarrow> \<not> observes a (backward_events ! j))} = {''a1''}"
proof -
  have e: "find_unmatched_actions backward_events = {''a1''}"
    by (simp add: find_unmatched_actions_def analyze_backward)
  from find_unmatched_actions_forward [of backward_events]
  have "find_unmatched_actions backward_events =
     {a. \<exists>i < length backward_events. is_action a (backward_events ! i) \<and>
         (\<forall>j. i < j \<and> j < length backward_events \<longrightarrow> \<not> observes a (backward_events ! j))}"
    by (rule conjunct1)
  with e show ?thesis by simp
qed

subsection \<open>The file store and its lock\<close>

text \<open>
  Modelled from the spec: the error kinds of sections 4 and 7, which the SDK raises and
  \<open>src/\<close> does not define. \<open>Interrupted\<close> stands for the cancellation or external
  interruption of a scope.
\<close>

datatype store_error =
    NotFound
  | NotWritable
  | DiskFull
  | PermissionDenied
  | Timeout
  | Interrupted
  | CorruptEvent string
  | UnknownEventKind string

text \<open>
  Modelled from the spec: the \<open>FileStore\<close> of section 4.1 (the SDK's \<open>LocalFileStore\<close>, not
  under \<open>src/\<close>). \<open>blobs\<close> holds the bytes of every key, in the order in which the medium
  lists them; \<open>held\<close> is the set of the lock keys that some scope holds; \<open>write_fault\<close> is
  the condition of the medium, the error with which a write of a key fails, if it does.
\<close>

record file_store =
  blobs :: "(string \<times> string) list"
  held :: "string set"
  write_fault :: "string \<Rightarrow> store_error option"

text \<open>
  Modelled from the spec: \<open>FileStore.write\<close> creates or overwrites the file of the key, or
  fails with an I/O error and leaves the store as it was.
\<close>

definition fs_write :: "string \<Rightarrow> string \<Rightarrow> file_store \<Rightarrow> (store_error + unit) \<times> file_store" where
  "fs_write key bytes s =
     (case write_fault s key of
        Some err \<Rightarrow> (Inl err, s)
      | None \<Rightarrow> (Inr (), s\<lparr>blobs := AList.update key bytes (blobs s)\<rparr>))"

text \<open>Modelled from the spec: \<open>FileStore.read\<close> fails with \<open>NotFound\<close> on a key that does not exist.\<close>

definition fs_read :: "string \<Rightarrow> file_store \<Rightarrow> store_error + string" where
  "fs_read key s = (case map_of (blobs s) key of None \<Rightarrow> Inl NotFound | Some bytes \<Rightarrow> Inr bytes)"


text \<open>
  Modelled from the spec: \<open>FileStore.lock\<close> as a scoped guard, the \<open>with fs.lock(...)\<close>
  statement of the scripts. A key that is held is not acquired within the timeout and the
  scope is not entered. Otherwise the lock artifact is created if absent, the key is held
  while the body runs, and the guard releases it when the body is left, whatever its outcome.
\<close>

definition acquire :: "string \<Rightarrow> file_store \<Rightarrow> file_store" where
  "acquire key s =
     s\<lparr>held := insert key (held s),
       blobs := (if key \<in> fst ` set (blobs s) then blobs s else blobs s @ [(key, [])])\<rparr>"

definition release :: "string \<Rightarrow> file_store \<Rightarrow> file_store" where
  "release key s = s\<lparr>held := held s - {key}\<rparr>"

definition with_lock ::
  "string \<Rightarrow> (file_store \<Rightarrow> (store_error + 'a) \<times> file_store) \<Rightarrow> file_store \<Rightarrow>
   (store_error + 'a) \<times> file_store" where
  "with_lock key body s =
     (if key \<in> held s then (Inl Timeout, s)
      else (case body (acquire key s) of (outcome, s') \<Rightarrow> (outcome, release key s')))"

text \<open>
  The loop of \<open>measure_persist_latencies\<close> (\<open>bench_persist_latency.py\<close>, lines 42-49) over
  this store: for each event file, the write of its text under the lock of the log. An
  error ends the loop, as the exception does.
\<close>

definition EVENTS_DIR_NAME :: string where
  "EVENTS_DIR_NAME = ''events''"

definition LOCK_FILE :: string where
  "LOCK_FILE = ''events/.eventlog.lock''"

fun measure_persist_latencies :: "event_file list \<Rightarrow> file_store \<Rightarrow> (store_error + unit) \<times> file_store" where
  "measure_persist_latencies [] s = (Inr (), s)"
| "measure_persist_latencies (ef # rest) s =
     (case with_lock LOCK_FILE (fs_write (EVENTS_DIR_NAME @ ''/'' @ filename ef) (json_str ef)) s of
        (Inl err, s') \<Rightarrow> (Inl err, s')
      | (Inr u, s') \<Rightarrow> measure_persist_latencies rest s')"

subsection \<open>Events as JSON text\<close>

text \<open>
  Modelled from the spec: the content of an event file (section 6), one JSON object with the
  top-level fields \<open>kind\<close>, \<open>index\<close> and \<open>id\<close> and the fields of its variant. The SDK's
  serialization is not under \<open>src/\<close>. The text is produced and read by the JSON library, the
  parameters \<open>json_dumps\<close> and \<open>json_loads\<close>.
\<close>

fun kind_name :: "event_body \<Rightarrow> string" where
  "kind_name (SystemPromptEvent p) = ''SystemPromptEvent''"
| "kind_name (MessageEvent p) = ''MessageEvent''"
| "kind_name (ActionEvent p) = ''ActionEvent''"
| "kind_name (ObservationEvent c p) = ''ObservationEvent''"
| "kind_name (ConversationStateUpdateEvent p) = ''ConversationStateUpdateEvent''"
| "kind_name (AgentErrorEvent p) = ''AgentErrorEvent''"

fun variant_fields :: "event_body \<Rightarrow> (string \<times> pyval) list" where
  "variant_fields (SystemPromptEvent p) = [(''payload'', p)]"
| "variant_fields (MessageEvent p) = [(''payload'', p)]"
| "variant_fields (ActionEvent p) = [(''payload'', p)]"
| "variant_fields (ObservationEvent c p) = [(''cause_id'', PStr c), (''payload'', p)]"
| "variant_fields (ConversationStateUpdateEvent p) = [(''payload'', p)]"
| "variant_fields (AgentErrorEvent p) = [(''payload'', p)]"

definition event_to_json :: "event \<Rightarrow> pyval" where
  "event_to_json e =
     PDict ([(''kind'', PStr (kind_name (ev_body e))), (''index'', PInt (int (ev_index e))),
             (''id'', PStr (ev_id e))] @ variant_fields (ev_body e))"

definition serialize :: "(pyval \<Rightarrow> string) \<Rightarrow> event \<Rightarrow> string" where
  "serialize json_dumps e = json_dumps (event_to_json e)"

text \<open>
  Modelled from the spec: deserialization by the \<open>kind\<close> discriminant (section 4.4). A kind
  that is not one of the six fails with \<open>UnknownEventKind\<close>, and a text that is not JSON or
  an object that lacks a field of its kind fails with \<open>CorruptEvent\<close>, both with the name of
  the file.
\<close>

definition body_of_json :: "string \<Rightarrow> string \<Rightarrow> (string \<times> pyval) list \<Rightarrow> store_error + event_body" where
  "body_of_json fname k obj =
     (if k \<notin> {''SystemPromptEvent'', ''MessageEvent'', ''ActionEvent'', ''ObservationEvent'',
                ''ConversationStateUpdateEvent'', ''AgentErrorEvent''}
      then Inl (UnknownEventKind fname)
      else (case map_of obj ''payload'' of
              None \<Rightarrow> Inl (CorruptEvent fname)
            | Some p \<Rightarrow>
                if k = ''SystemPromptEvent'' then Inr (SystemPromptEvent p)
                else if k = ''MessageEvent'' then Inr (MessageEvent p)
                else if k = ''ActionEvent'' then Inr (ActionEvent p)
                else if k = ''ConversationStateUpdateEvent'' then Inr (ConversationStateUpdateEvent p)
                else if k = ''AgentErrorEvent'' then Inr (AgentErrorEvent p)
                else (case map_of obj ''cause_id'' of
                        Some (PStr c) \<Rightarrow> Inr (ObservationEvent c p)
                      | _ \<Rightarrow> Inl (CorruptEvent fname))))"

definition event_of_json :: "string \<Rightarrow> pyval \<Rightarrow> store_error + event" where
  "event_of_json fname v =
     (case v of
        PDict obj \<Rightarrow>
          (case (map_of obj ''kind'', map_of obj ''index'', map_of obj ''id'') of
             (Some (PStr k), Some (PInt i), Some (PStr eid)) \<Rightarrow>
               if i < 0 then Inl (CorruptEvent fname)
               else (case body_of_json fname k obj of
                       Inl err \<Rightarrow> Inl err
                     | Inr b \<Rightarrow> Inr \<lparr>ev_index = nat i, ev_id = eid, ev_body = b\<rparr>)
           | _ \<Rightarrow> Inl (CorruptEvent fname))
      | _ \<Rightarrow> Inl (CorruptEvent fname))"

definition deserialize :: "(string \<Rightarrow> py_error + pyval) \<Rightarrow> string \<Rightarrow> string \<Rightarrow> store_error + event" where
  "deserialize json_loads fname text =
     (case json_loads text of
        Inl err \<Rightarrow> Inl (CorruptEvent fname)
      | Inr v \<Rightarrow> event_of_json fname v)"

subsection \<open>Appending to the log\<close>









subsection \<open>The guard releases the lock\<close>

lemma with_lock_released: "key \<notin> held (snd (with_lock key body s)) \<or> key \<in> held s"
  by (simp add: with_lock_def release_def split: prod.splits)

lemma measure_persist_latencies_released:
  "LOCK_FILE \<notin> held s \<Longrightarrow> LOCK_FILE \<notin> held (snd (measure_persist_latencies efs s))"
proof (induction efs arbitrary: s)
  case Nil
  then show ?case by simp
next
  case (Cons ef efs)
  let ?body = "fs_write (EVENTS_DIR_NAME @ ''/'' @ filename ef) (json_str ef)"
  obtain r s' where w: "with_lock LOCK_FILE ?body s = (r, s')"
    by (cases "with_lock LOCK_FILE ?body s")
  with with_lock_released [of LOCK_FILE ?body s] Cons.prems have free: "LOCK_FILE \<notin> held s'"
    by simp
  show ?case
  proof (cases r)
    case (Inl err)
    with w free show ?thesis by simp
  next
    case (Inr u)
    with w Cons.IH [OF free] show ?thesis by simp
  qed
qed

text \<open>
  Claim C8. A scope that finds the key held is not entered and fails with \<open>Timeout\<close>,
  leaving the store as it was. A scope that acquires the key holds it while the body runs,
  returns the outcome of the body, and has released the key when it is left, for every body
  and every outcome (a value, an error, an interruption). In particular the lock of the log
  is free after the persist loop of the benchmark, whether the loop completes or a write fails.
\<close>

theorem lock_released_on_every_exit:
  "(key \<in> held s \<longrightarrow> with_lock key body s = (Inl Timeout, s)) \<and>
   (key \<notin> held s \<longrightarrow>
      key \<in> held (acquire key s) \<and>
      fst (with_lock key body s) = fst (body (acquire key s)) \<and>
      key \<notin> held (snd (with_lock key body s))) \<and>
   (LOCK_FILE \<notin> held s \<longrightarrow> LOCK_FILE \<notin> held (snd (measure_persist_latencies efs s)))"
proof (intro conjI impI)
  assume "key \<in> held s"
  then show "with_lock key body s = (Inl Timeout, s)"
    by (simp add: with_lock_def)
next
  assume "key \<notin> held s"
  then show "fst (with_lock key body s) = fst (body (acquire key s))"
    by (simp add: with_lock_def split: prod.splits)
  from \<open>key \<notin> held s\<close> with_lock_released [of key body s]
  show "key \<notin> held (snd (with_lock key body s))" by simp
  show "key \<in> held (acquire key s)"
    by (simp add: acquire_def)
next
  assume "LOCK_FILE \<notin> held s"
  then show "LOCK_FILE \<notin> held (snd (measure_persist_latencies efs s))"
    by (rule measure_persist_latencies_released)
qed

definition faulty_store :: file_store where
  "faulty_store = \<lparr>blobs = [], held = {''other.lock''}, write_fault = (\<lambda>k. if k = ''events/b.json'' then Some DiskFull else None)\<rparr>"

theorem lock_released_on_every_exit_witness:
  "with_lock ''other.lock'' (fs_write ''events/a.json'' ''{}'') faulty_store = (Inl Timeout, faulty_store) \<and>
   fst (with_lock LOCK_FILE (fs_write ''events/a.json'' ''{}'') faulty_store) = Inr () \<and>
   held (snd (with_lock LOCK_FILE (fs_write ''events/a.json'' ''{}'') faulty_store)) = {''other.lock''} \<and>
   fst (with_lock LOCK_FILE (fs_write ''events/b.json'' ''{}'') faulty_store) = Inl DiskFull \<and>
   held (snd (with_lock LOCK_FILE (fs_write ''events/b.json'' ''{}'') faulty_store)) = {''other.lock''} \<and>
   fst (with_lock LOCK_FILE (\<lambda>s. (Inl Interrupted :: store_error + unit, s)) faulty_store) = Inl Interrupted \<and>
   LOCK_FILE \<notin> held (snd (with_lock LOCK_FILE (\<lambda>s. (Inl Interrupted :: store_error + unit, s)) faulty_store)) \<and>
   LOCK_FILE \<notin> held (snd (measure_persist_latencies
      [\<lparr>filename = ''a.json'', json_str = ''{}'', size_bytes = 2, kind = PStr ''unknown''\<rparr>,
       \<lparr>filename = ''b.json'', json_str = ''{}'', size_bytes = 2, kind = PStr ''unknown''\<rparr>] faulty_store))"
proof -
  have h: "LOCK_FILE \<notin> held faulty_store" "''other.lock'' \<in> held faulty_store"
    by (simp_all add: faulty_store_def LOCK_FILE_def)
  have a: "with_lock LOCK_FILE (fs_write ''events/a.json'' ''{}'') faulty_store =
      (Inr (), \<lparr>blobs = [(LOCK_FILE, []), (''events/a.json'', ''{}'')], held = {''other.lock''},
                write_fault = write_fault faulty_store\<rparr>)"
    by (simp add: with_lock_def acquire_def release_def fs_write_def faulty_store_def LOCK_FILE_def)
  have b: "with_lock LOCK_FILE (fs_write ''events/b.json'' ''{}'') faulty_store =
      (Inl DiskFull, \<lparr>blobs = [(LOCK_FILE, [])], held = {''other.lock''},
                write_fault = write_fault faulty_store\<rparr>)"
    by (simp add: with_lock_def acquire_def release_def fs_write_def faulty_store_def LOCK_FILE_def)
  note t1 = lock_released_on_every_exit [of "''other.lock''" faulty_store "fs_write ''events/a.json'' ''{}''" "[]"]
  note t2 = lock_released_on_every_exit [of LOCK_FILE faulty_store
      "\<lambda>s. (Inl Interrupted :: store_error + unit, s)"
      "[\<lparr>filename = ''a.json'', json_str = ''{}'', size_bytes = 2, kind = PStr ''unknown''\<rparr>,
        \<lparr>filename = ''b.json'', json_str = ''{}'', size_bytes = 2, kind = PStr ''unknown''\<rparr>]"]
  from t1 h(2) have c1: "with_lock ''other.lock'' (fs_write ''events/a.json'' ''{}'') faulty_store
      = (Inl Timeout, faulty_store)" by blast
  from t2 h(1) have c2:
    "fst (with_lock LOCK_FILE (\<lambda>s. (Inl Interrupted :: store_error + unit, s)) faulty_store) =
       fst (Inl Interrupted :: store_error + unit, acquire LOCK_FILE faulty_store)"
    "LOCK_FILE \<notin> held (snd (with_lock LOCK_FILE (\<lambda>s. (Inl Interrupted :: store_error + unit, s)) faulty_store))"
    "LOCK_FILE \<notin> held (snd (measure_persist_latencies
      [\<lparr>filename = ''a.json'', json_str = ''{}'', size_bytes = 2, kind = PStr ''unknown''\<rparr>,
       \<lparr>filename = ''b.json'', json_str = ''{}'', size_bytes = 2, kind = PStr ''unknown''\<rparr>] faulty_store))"
    by blast+
  from c1 c2 show ?thesis by (simp add: a b)
qed

subsection \<open>Round trip of an event through its text\<close>

lemma event_of_json_to_json: "event_of_json fname (event_to_json e) = Inr e"
  by (cases e; cases "ev_body e")
     (simp_all add: event_of_json_def event_to_json_def body_of_json_def)

text \<open>
  Claim C7. Deserializing the serialized text of an event gives the event back, field for
  field, provided the JSON library reads back the object it has written for that event.
\<close>

theorem deserialize_serialize:
  "json_loads (json_dumps (event_to_json e)) = Inr (event_to_json e) \<Longrightarrow>
   deserialize json_loads fname (serialize json_dumps e) = Inr e"
  by (simp add: deserialize_def serialize_def event_of_json_to_json)

text \<open>\<open>json.dumps\<close> on the values of the table of sample texts.\<close>

definition sample_json_dumps :: "pyval \<Rightarrow> string" where
  "sample_json_dumps v =
     (case find (\<lambda>(text, v'). v' = v) sample_parses of
        None \<Rightarrow> ''null''
      | Some (text, v') \<Rightarrow> text)"

theorem deserialize_serialize_witness:
  \<open>serialize sample_json_dumps \<lparr>ev_index = 3, ev_id = ''0b3'', ev_body = ObservationEvent ''a1'' PNone\<rparr> =
     ''{"kind": "ObservationEvent", "index": 3, "id": "0b3", "cause_id": "a1", "payload": null}'' \<and>
   deserialize sample_json_loads ''event-00003-0b3.json''
     ''{"kind": "ObservationEvent", "index": 3, "id": "0b3", "cause_id": "a1", "payload": null}'' =
     Inr \<lparr>ev_index = 3, ev_id = ''0b3'', ev_body = ObservationEvent ''a1'' PNone\<rparr>\<close>
proof -
  let ?e = "\<lparr>ev_index = 3, ev_id = ''0b3'', ev_body = ObservationEvent ''a1'' PNone\<rparr>"
  have s: \<open>serialize sample_json_dumps ?e =
     ''{"kind": "ObservationEvent", "index": 3, "id": "0b3", "cause_id": "a1", "payload": null}''\<close>
    by (simp add: serialize_def event_to_json_def sample_json_dumps_def sample_parses_def)
  have h: "sample_json_loads (sample_json_dumps (event_to_json ?e)) = Inr (event_to_json ?e)"
    by (simp add: event_to_json_def sample_json_dumps_def sample_json_loads_def sample_parses_def)
  have "deserialize sample_json_loads ''event-00003-0b3.json'' (serialize sample_json_dumps ?e) = Inr ?e"
    using h by (rule deserialize_serialize [of sample_json_loads sample_json_dumps ?e])
  with s show ?thesis by simp
qed

subsection \<open>Names written by append are read back by the rebuild\<close>












subsection \<open>The indices on disk along a history\<close>






















end
